theory Spec2Isabelle
  imports Main "HOL-Library.Char_ord" "HOL-Library.List_Lexorder"
begin

section \<open>Python values\<close>

text \<open>
  The server \<^verbatim>\<open>app.py\<close> handles JSON: the request body, the options dictionary and the
  history file are all values produced by a JSON parser. They are modelled by one datatype.
  A dictionary is an association list read with \<^const>\<open>map_of\<close>. Strings are lists of
  \<^typ>\<open>char\<close>, read as the code points below 256; they are compared by code point and
  lexicographically, as Python compares \<^verbatim>\<open>str\<close> values. Numbers are integers.
\<close>

datatype json =
    JNull
  | JBool bool
  | JNum int
  | JStr string
  | JArr "json list"
  | JObj "(string \<times> json) list"

text \<open>The exceptions the modelled code can raise. \<open>OtherError text\<close> is any other
  exception, raised inside a library call (Flask's \<^verbatim>\<open>get_json\<close>, \<^verbatim>\<open>requests.get\<close>), with
  its text.\<close>

datatype exn = AttributeError | TypeError | KeyError | ValueError | OtherError string

text \<open>Truth value of an object in a condition (\<^verbatim>\<open>if x:\<close>, \<^verbatim>\<open>not x\<close>).\<close>

fun truthy :: "json \<Rightarrow> bool" where
  "truthy JNull = False"
| "truthy (JBool b) = b"
| "truthy (JNum n) = (n \<noteq> 0)"
| "truthy (JStr s) = (s \<noteq> [])"
| "truthy (JArr xs) = (xs \<noteq> [])"
| "truthy (JObj kvs) = (kvs \<noteq> [])"

text \<open>\<^verbatim>\<open>x.get(k, d)\<close>: only a dictionary has the method.\<close>

fun py_get :: "json \<Rightarrow> string \<Rightarrow> json \<Rightarrow> exn + json" where
  "py_get (JObj kvs) k d = Inr (case map_of kvs k of None \<Rightarrow> d | Some v \<Rightarrow> v)"
| "py_get _ k d = Inl AttributeError"

text \<open>\<^verbatim>\<open>x[k]\<close> with a string \<^verbatim>\<open>k\<close>.\<close>

fun py_getitem :: "json \<Rightarrow> string \<Rightarrow> exn + json" where
  "py_getitem (JObj kvs) k = (case map_of kvs k of None \<Rightarrow> Inl KeyError | Some v \<Rightarrow> Inr v)"
| "py_getitem _ k = Inl TypeError"

text \<open>\<^verbatim>\<open>k in s\<close> for two strings: \<^verbatim>\<open>k\<close> occurs in \<^verbatim>\<open>s\<close> as a substring.\<close>

fun substring :: "string \<Rightarrow> string \<Rightarrow> bool" where
  "substring k [] = (k = [])"
| "substring k (c # s) = (take (length k) (c # s) = k \<or> substring k s)"

text \<open>\<^verbatim>\<open>k in x\<close> with a string \<^verbatim>\<open>k\<close>: a key of a dictionary, an element of a list, a
  substring of a string; the other values are not containers.\<close>

fun py_in :: "string \<Rightarrow> json \<Rightarrow> exn + bool" where
  "py_in k (JObj kvs) = Inr (map_of kvs k \<noteq> None)"
| "py_in k (JArr xs) = Inr (JStr k \<in> set xs)"
| "py_in k (JStr s) = Inr (substring k s)"
| "py_in k _ = Inl TypeError"

text \<open>\<^verbatim>\<open>for item in x\<close>: the sequence of items, a dictionary giving its keys and a string
  its characters.\<close>

fun py_iter :: "json \<Rightarrow> exn + json list" where
  "py_iter (JArr xs) = Inr xs"
| "py_iter (JObj kvs) = Inr (map (\<lambda>kv. JStr (fst kv)) kvs)"
| "py_iter (JStr s) = Inr (map (\<lambda>c. JStr [c]) s)"
| "py_iter _ = Inl TypeError"

text \<open>Lists and dictionaries cannot be members of a set.\<close>

fun hashable :: "json \<Rightarrow> bool" where
  "hashable (JArr xs) = False"
| "hashable (JObj kvs) = False"
| "hashable _ = True"

text \<open>\<^verbatim>\<open>set(x)\<close>, as the list of its members (only membership is asked of it).\<close>

definition py_set :: "json \<Rightarrow> exn + json list" where
  "py_set x =
     (case py_iter x of
        Inl e \<Rightarrow> Inl e
      | Inr xs \<Rightarrow> if list_all hashable xs then Inr xs else Inl TypeError)"

text \<open>Whitespace of \<^verbatim>\<open>str.strip()\<close> among the code points below 256.\<close>

definition py_isspace :: "char \<Rightarrow> bool" where
  "py_isspace c =
     (let n = (of_char c :: nat)
      in (9 \<le> n \<and> n \<le> 13) \<or> (28 \<le> n \<and> n \<le> 32) \<or> n = 133 \<or> n = 160)"

definition lstrip_with :: "(char \<Rightarrow> bool) \<Rightarrow> string \<Rightarrow> string" where
  "lstrip_with P s = dropWhile P s"

definition strip_with :: "(char \<Rightarrow> bool) \<Rightarrow> string \<Rightarrow> string" where
  "strip_with P s = rev (dropWhile P (rev (dropWhile P s)))"

text \<open>\<^verbatim>\<open>x.strip()\<close>: only a string has the method.\<close>

fun py_strip :: "json \<Rightarrow> exn + string" where
  "py_strip (JStr s) = Inr (strip_with py_isspace s)"
| "py_strip _ = Inl AttributeError"

text \<open>\<^verbatim>\<open>str.lower()\<close> on the code points below 256.\<close>

definition py_lower :: "char \<Rightarrow> char" where
  "py_lower c =
     (let n = (of_char c :: nat)
      in if (65 \<le> n \<and> n \<le> 90) \<or> (192 \<le> n \<and> n \<le> 222 \<and> n \<noteq> 215)
         then char_of (n + 32) else c)"

text \<open>\<^verbatim>\<open>s.find(c)\<close> and \<^verbatim>\<open>s.find(c, start)\<close>: the first position of \<^verbatim>\<open>c\<close>, if any.\<close>

fun find_char :: "char \<Rightarrow> string \<Rightarrow> nat option" where
  "find_char c [] = None"
| "find_char c (x # xs) = (if x = c then Some 0 else map_option Suc (find_char c xs))"

definition find_from :: "char \<Rightarrow> string \<Rightarrow> nat \<Rightarrow> nat option" where
  "find_from c s start = map_option (\<lambda>i. i + start) (find_char c (drop start s))"

text \<open>\<^verbatim>\<open>s.rfind(c)\<close>: the last position of \<^verbatim>\<open>c\<close>, if any.\<close>

definition rfind_char :: "char \<Rightarrow> string \<Rightarrow> nat option" where
  "rfind_char c s = map_option (\<lambda>i. length s - 1 - i) (find_char c (rev s))"

text \<open>\<^verbatim>\<open>s.split(c)\<close>: the pieces between the occurrences of \<^verbatim>\<open>c\<close>, never an empty list.\<close>

fun split_on :: "char \<Rightarrow> string \<Rightarrow> string list" where
  "split_on c [] = [[]]"
| "split_on c (x # xs) =
     (if x = c then [] # split_on c xs
      else (case split_on c xs of
              [] \<Rightarrow> [[x]]
            | y # ys \<Rightarrow> (x # y) # ys))"

text \<open>\<^verbatim>\<open>s.split(c, 1)\<close> and \<^verbatim>\<open>s.partition(c)\<close> when \<^verbatim>\<open>c\<close> occurs in \<^verbatim>\<open>s\<close>: the text before
  the first occurrence and the text after it.\<close>

definition split_once :: "char \<Rightarrow> string \<Rightarrow> string \<times> string" where
  "split_once c s = (takeWhile (\<lambda>x. x \<noteq> c) s, drop 1 (dropWhile (\<lambda>x. x \<noteq> c) s))"

text \<open>\<^verbatim>\<open>c.join(parts)\<close>.\<close>

fun join_with :: "char \<Rightarrow> string list \<Rightarrow> string" where
  "join_with c [] = []"
| "join_with c [p] = p"
| "join_with c (p # q # ps) = p @ c # join_with c (q # ps)"

section \<open>The world outside the program\<close>

text \<open>
  What the program reads from outside is a parameter of the model:
  \<^item> \<open>fetch u\<close> is the outcome of \<^verbatim>\<open>requests.get(u, ...)\<close> followed by
    \<^verbatim>\<open>raise_for_status()\<close>: \<open>RequestFailed cause\<close> when a \<^verbatim>\<open>RequestException\<close> with text
    \<open>cause\<close> is raised (transport error, timeout, non-success status), \<open>Raised e\<close> when
    an exception that is not a \<^verbatim>\<open>RequestException\<close> is raised, \<open>Page text\<close> when the
    page arrives, \<open>text\<close> being \<^verbatim>\<open>response.text\<close>;
  \<^item> \<open>find_all_a html\<close> lists, in document order, the \<^verbatim>\<open>href\<close> values of the elements that
    \<^verbatim>\<open>BeautifulSoup(html, 'html.parser').find_all('a', href=True)\<close> returns;
  \<^item> \<open>now\<close> is \<^verbatim>\<open>datetime.now().isoformat()\<close>;
  \<^item> \<open>set_rank\<close> fixes the order in which a Python \<^verbatim>\<open>set\<close> of strings is iterated (it
    depends on the hashes of the process): members come by increasing rank;
  \<^item> \<open>bracketed_host_ok h\<close> says that \<^verbatim>\<open>urllib.parse._check_bracketed_host(h)\<close> does not
    raise, and \<open>nfkc\<close> is \<^verbatim>\<open>unicodedata.normalize('NFKC', _)\<close>.
\<close>

datatype fetched = Page string | RequestFailed string | Raised exn

record env =
  fetch :: "string \<Rightarrow> fetched"
  find_all_a :: "string \<Rightarrow> string list"
  now :: string
  set_rank :: "string \<Rightarrow> nat"
  bracketed_host_ok :: "string \<Rightarrow> bool"
  nfkc :: "string \<Rightarrow> string"

text \<open>\<^verbatim>\<open>list(set(xs))\<close>: every member once, in the iteration order of the set.\<close>

definition list_of_set :: "env \<Rightarrow> string list \<Rightarrow> string list" where
  "list_of_set E xs = sort_key (set_rank E) (remdups xs)"

text \<open>The place of a member in an enumeration \<open>us\<close> of a set: the rank under which the
  set is iterated in the order of \<open>us\<close>.\<close>

definition position :: "'a list \<Rightarrow> 'a \<Rightarrow> nat" where
  "position us x = length (takeWhile (\<lambda>y. y \<noteq> x) us)"

section \<open>The functions of urllib.parse that the program calls\<close>

text \<open>
  \<^verbatim>\<open>urlparse\<close>, \<^verbatim>\<open>urljoin\<close> and \<^verbatim>\<open>ParseResult.geturl\<close> follow the text of
  \<^verbatim>\<open>Lib/urllib/parse.py\<close> of CPython 3.11 on \<^verbatim>\<open>str\<close> arguments, with
  \<^verbatim>\<open>allow_fragments\<close> at its default.
\<close>

definition uses_relative :: "string list" where
  "uses_relative = ['''', ''ftp'', ''http'', ''gopher'', ''nntp'', ''imap'',
     ''wais'', ''file'', ''https'', ''shttp'', ''mms'',
     ''prospero'', ''rtsp'', ''rtsps'', ''rtspu'', ''sftp'',
     ''svn'', ''svn+ssh'', ''ws'', ''wss'']"

definition uses_netloc :: "string list" where
  "uses_netloc = ['''', ''ftp'', ''http'', ''gopher'', ''nntp'', ''telnet'',
     ''imap'', ''wais'', ''file'', ''mms'', ''https'', ''shttp'',
     ''snews'', ''prospero'', ''rtsp'', ''rtsps'', ''rtspu'', ''rsync'',
     ''svn'', ''svn+ssh'', ''sftp'', ''nfs'', ''git'', ''git+ssh'',
     ''ws'', ''wss'']"

definition uses_params :: "string list" where
  "uses_params = ['''', ''ftp'', ''hdl'', ''prospero'', ''http'', ''imap'',
     ''https'', ''shttp'', ''rtsp'', ''rtsps'', ''rtspu'', ''sip'',
     ''sips'', ''mms'', ''sftp'', ''tel'']"

definition scheme_chars :: string where
  "scheme_chars = ''abcdefghijklmnopqrstuvwxyzABCDEFGHIJKLMNOPQRSTUVWXYZ0123456789+-.''"

definition c0_control_or_space :: "char \<Rightarrow> bool" where
  "c0_control_or_space c = ((of_char c :: nat) \<le> 32)"

definition unsafe_url_bytes :: string where
  "unsafe_url_bytes = [char_of (9::nat), char_of (13::nat), char_of (10::nat)]"

definition isascii :: "char \<Rightarrow> bool" where
  "isascii c = ((of_char c :: nat) < 128)"

text \<open>\<^verbatim>\<open>c.isalpha()\<close> for an ASCII character.\<close>

definition isalpha :: "char \<Rightarrow> bool" where
  "isalpha c =
     (let n = (of_char c :: nat) in (65 \<le> n \<and> n \<le> 90) \<or> (97 \<le> n \<and> n \<le> 122))"

record parse_result =
  scheme :: string
  netloc :: string
  path :: string
  params :: string
  query :: string
  fragment :: string

definition splitnetloc :: "string \<Rightarrow> nat \<Rightarrow> string \<times> string" where
  "splitnetloc url start =
     (let delim = fold (\<lambda>c d. case find_from c url start of
                                 Some wdelim \<Rightarrow> min d wdelim
                               | None \<Rightarrow> d)
                       ''/?#'' (length url)
      in (take (delim - start) (drop start url), drop delim url))"

definition checknetloc :: "env \<Rightarrow> string \<Rightarrow> bool" where
  "checknetloc E nl =
     (if nl = [] \<or> list_all isascii nl then True
      else (let n = filter (\<lambda>c. c \<notin> set ''@:#?'') nl;
                netloc2 = nfkc E n
            in if n = netloc2 then True
               else \<not> list_ex (\<lambda>c. c \<in> set netloc2) ''/?#@:''))"

text \<open>\<^verbatim>\<open>urlsplit(url, scheme)\<close>: the five components, or \<^verbatim>\<open>ValueError\<close>.\<close>

definition urlsplit ::
  "env \<Rightarrow> string \<Rightarrow> string \<Rightarrow> exn + (string \<times> string \<times> string \<times> string \<times> string)" where
  "urlsplit E url0 scheme0 =
     (let url1 = filter (\<lambda>c. c \<notin> set unsafe_url_bytes)
                        (lstrip_with c0_control_or_space url0);
          scheme1 = filter (\<lambda>c. c \<notin> set unsafe_url_bytes)
                           (strip_with c0_control_or_space scheme0);
          (scheme2, url2) =
            (case find_char CHR '':'' url1 of
               None \<Rightarrow> (scheme1, url1)
             | Some i \<Rightarrow>
                 if 0 < i \<and> isascii (hd url1) \<and> isalpha (hd url1)
                    \<and> list_all (\<lambda>c. c \<in> set scheme_chars) (take i url1)
                 then (map py_lower (take i url1), drop (Suc i) url1)
                 else (scheme1, url1));
          (netloc2, url3) =
            (if take 2 url2 = ''//'' then splitnetloc url2 2 else ([], url2));
          has_open = CHR ''['' \<in> set netloc2;
          has_close = CHR '']'' \<in> set netloc2
      in if take 2 url2 = ''//'' \<and> ((has_open \<and> \<not> has_close) \<or> (has_close \<and> \<not> has_open))
         then Inl ValueError
         else if take 2 url2 = ''//'' \<and> has_open \<and> has_close
                 \<and> \<not> bracketed_host_ok E
                       (fst (split_once CHR '']'' (snd (split_once CHR ''['' netloc2))))
         then Inl ValueError
         else
           (let (url4, fragment2) =
                  (if CHR ''#'' \<in> set url3 then split_once CHR ''#'' url3 else (url3, []));
                (url5, query2) =
                  (if CHR ''?'' \<in> set url4 then split_once CHR ''?'' url4 else (url4, []))
            in if checknetloc E netloc2
               then Inr (scheme2, netloc2, url5, query2, fragment2)
               else Inl ValueError))"

text \<open>\<^verbatim>\<open>_splitparams(url)\<close>, called on a path that contains a semicolon.\<close>

definition splitparams :: "string \<Rightarrow> string \<times> string" where
  "splitparams url =
     (case (if CHR ''/'' \<in> set url
            then find_from CHR '';'' url (the (rfind_char CHR ''/'' url))
            else find_char CHR '';'' url) of
        None \<Rightarrow> (url, [])
      | Some i \<Rightarrow> (take i url, drop (Suc i) url))"

text \<open>\<^verbatim>\<open>urlparse(url, scheme)\<close>.\<close>

definition urlparse :: "env \<Rightarrow> string \<Rightarrow> string \<Rightarrow> exn + parse_result" where
  "urlparse E url scheme0 =
     (case urlsplit E url scheme0 of
        Inl e \<Rightarrow> Inl e
      | Inr (s, n, u, q, f) \<Rightarrow>
          (let (u', ps) = (if s \<in> set uses_params \<and> CHR '';'' \<in> set u
                           then splitparams u else (u, []))
           in Inr \<lparr>scheme = s, netloc = n, path = u', params = ps, query = q, fragment = f\<rparr>))"

text \<open>\<^verbatim>\<open>urlunsplit\<close> and \<^verbatim>\<open>urlunparse\<close>; \<^verbatim>\<open>geturl()\<close> of a parse result is \<^verbatim>\<open>urlunparse\<close>
  of it.\<close>

definition urlunsplit :: "string \<Rightarrow> string \<Rightarrow> string \<Rightarrow> string \<Rightarrow> string \<Rightarrow> string" where
  "urlunsplit s n url q f =
     (let url1 = (if n \<noteq> [] \<or> (s \<noteq> [] \<and> s \<in> set uses_netloc) \<or> take 2 url = ''//''
                  then ''//'' @ n @ (if url \<noteq> [] \<and> take 1 url \<noteq> ''/'' then ''/'' @ url else url)
                  else url);
          url2 = (if s \<noteq> [] then s @ '':'' @ url1 else url1);
          url3 = (if q \<noteq> [] then url2 @ ''?'' @ q else url2)
      in if f \<noteq> [] then url3 @ ''#'' @ f else url3)"

definition urlunparse :: "parse_result \<Rightarrow> string" where
  "urlunparse p =
     urlunsplit (scheme p) (netloc p)
       (if params p \<noteq> [] then path p @ '';'' @ params p else path p)
       (query p) (fragment p)"

definition geturl :: "parse_result \<Rightarrow> string" where
  "geturl p = urlunparse p"

text \<open>The loop of \<^verbatim>\<open>urljoin\<close> over the path segments: \<^verbatim>\<open>..\<close> pops the last resolved
  segment when there is one, \<^verbatim>\<open>.\<close> is skipped.\<close>

fun resolve_segments :: "string list \<Rightarrow> string list \<Rightarrow> string list" where
  "resolve_segments resolved [] = resolved"
| "resolve_segments resolved (seg # segs) =
     (if seg = ''..'' then resolve_segments (butlast resolved) segs
      else if seg = ''.'' then resolve_segments resolved segs
      else resolve_segments (resolved @ [seg]) segs)"

text \<open>\<^verbatim>\<open>segments[1:-1] = filter(None, segments[1:-1])\<close>.\<close>

definition drop_inner_empty :: "string list \<Rightarrow> string list" where
  "drop_inner_empty segs =
     take 1 segs
     @ filter (\<lambda>s. s \<noteq> []) (take (length segs - 2) (drop 1 segs))
     @ drop (max 1 (length segs - 1)) segs"

definition urljoin :: "env \<Rightarrow> string \<Rightarrow> string \<Rightarrow> exn + string" where
  "urljoin E base url =
     (if base = [] then Inr url
      else if url = [] then Inr base
      else
        (case urlparse E base [] of
           Inl e \<Rightarrow> Inl e
         | Inr b \<Rightarrow>
        (case urlparse E url (scheme b) of
           Inl e \<Rightarrow> Inl e
         | Inr u \<Rightarrow>
             if scheme u \<noteq> scheme b \<or> scheme u \<notin> set uses_relative then Inr url
             else if scheme u \<in> set uses_netloc \<and> netloc u \<noteq> []
             then Inr (urlunparse u)
             else
               (let n = (if scheme u \<in> set uses_netloc then netloc b else netloc u)
                in if path u = [] \<and> params u = []
                   then Inr (urlunparse
                          (u\<lparr>netloc := n, path := path b, params := params b,
                             query := (if query u = [] then query b else query u)\<rparr>))
                   else
                     (let parts = split_on CHR ''/'' (path b);
                          base_parts = (if last parts \<noteq> [] then butlast parts else parts);
                          segments =
                            (if take 1 (path u) = ''/'' then split_on CHR ''/'' (path u)
                             else drop_inner_empty (base_parts @ split_on CHR ''/'' (path u)));
                          resolved = resolve_segments [] segments;
                          resolved_path =
                            (if last segments = ''.'' \<or> last segments = ''..''
                             then resolved @ [[]] else resolved);
                          joined = join_with CHR ''/'' resolved_path
                      in Inr (urlunparse
                           (u\<lparr>netloc := n,
                              path := (if joined = [] then ''/'' else joined)\<rparr>)))))))"

text \<open>The \<^verbatim>\<open>hostname\<close> property of a parse result; it reads the \<^verbatim>\<open>netloc\<close> only.\<close>

definition rpartition_after :: "char \<Rightarrow> string \<Rightarrow> string" where
  "rpartition_after c s = rev (takeWhile (\<lambda>x. x \<noteq> c) (rev s))"

definition hostname :: "parse_result \<Rightarrow> string option" where
  "hostname p =
     (let hostinfo = rpartition_after CHR ''@'' (netloc p);
          h = (if CHR ''['' \<in> set hostinfo
               then takeWhile (\<lambda>x. x \<noteq> CHR '']'') (snd (split_once CHR ''['' hostinfo))
               else takeWhile (\<lambda>x. x \<noteq> CHR '':'') hostinfo)
      in if h = [] then None
         else Some (map py_lower (takeWhile (\<lambda>x. x \<noteq> CHR ''%'') h)
                    @ dropWhile (\<lambda>x. x \<noteq> CHR ''%'') h))"

section \<open>URL normaliser\<close>

text \<open>\<^verbatim>\<open>normalize_url(url, base_url, remove_query, remove_anchors)\<close>: \<open>None\<close> when
  an exception is caught. The two flags arrive as the values found in the options and are
  tested for truth.\<close>

definition normalize_url :: "env \<Rightarrow> string \<Rightarrow> string \<Rightarrow> json \<Rightarrow> json \<Rightarrow> string option" where
  "normalize_url E url base_url remove_query remove_anchors =
     (case urljoin E base_url url of
        Inl e \<Rightarrow> None
      | Inr full_url \<Rightarrow>
          (case urlparse E full_url [] of
             Inl e \<Rightarrow> None
           | Inr parsed \<Rightarrow>
               (let parsed1 = (if truthy remove_query then parsed\<lparr>query := []\<rparr> else parsed);
                    parsed2 = (if truthy remove_anchors then parsed1\<lparr>fragment := []\<rparr>
                               else parsed1)
                in Some (geturl parsed2))))"

section \<open>Link extractor\<close>

definition default_options :: json where
  "default_options =
     JObj [(''internal_only'', JBool True),
           (''remove_query'', JBool True),
           (''remove_anchors'', JBool True)]"

text \<open>The loop over the anchors: an empty \<^verbatim>\<open>href\<close> and \<^verbatim>\<open>#\<close> are skipped, the others are
  normalised and kept when the result is a non-empty string. Reading the options raises
  when they are not a dictionary.\<close>

fun collect_links :: "env \<Rightarrow> string \<Rightarrow> json \<Rightarrow> string list \<Rightarrow> string list \<Rightarrow> exn + string list"
where
  "collect_links E base_url opts links [] = Inr links"
| "collect_links E base_url opts links (href # hrefs) =
     (if href = [] \<or> href = ''#'' then collect_links E base_url opts links hrefs
      else
        (case py_get opts ''remove_query'' (JBool True) of
           Inl e \<Rightarrow> Inl e
         | Inr rq \<Rightarrow>
        (case py_get opts ''remove_anchors'' (JBool True) of
           Inl e \<Rightarrow> Inl e
         | Inr ra \<Rightarrow>
        (case normalize_url E href base_url rq ra of
           None \<Rightarrow> collect_links E base_url opts links hrefs
         | Some normalized_url \<Rightarrow>
             if normalized_url \<noteq> []
             then collect_links E base_url opts (links @ [normalized_url]) hrefs
             else collect_links E base_url opts links hrefs))))"

text \<open>The filter loop of the internal-only branch: a link whose parse raises is skipped.\<close>

definition internal_filter :: "env \<Rightarrow> string \<Rightarrow> string list \<Rightarrow> string list" where
  "internal_filter E base_domain unique_links =
     filter (\<lambda>link. case urlparse E link [] of
                      Inl e \<Rightarrow> False
                    | Inr p \<Rightarrow> netloc p = base_domain) unique_links"

text \<open>\<^verbatim>\<open>extract_links_from_html(html, base_url, options)\<close>; the options are \<open>JNull\<close> for
  Python's \<^verbatim>\<open>None\<close>.\<close>

definition extract_links_from_html :: "env \<Rightarrow> string \<Rightarrow> string \<Rightarrow> json \<Rightarrow> exn + string list"
where
  "extract_links_from_html E html base_url options0 =
     (let opts = (if options0 = JNull then default_options else options0)
      in case collect_links E base_url opts [] (find_all_a E html) of
           Inl e \<Rightarrow> Inl e
         | Inr links \<Rightarrow>
             (let unique_links = list_of_set E links
              in case py_get opts ''internal_only'' (JBool True) of
                   Inl e \<Rightarrow> Inl e
                 | Inr io \<Rightarrow>
                     if truthy io
                     then (case urlparse E base_url [] of
                             Inl e \<Rightarrow> Inl e
                           | Inr b \<Rightarrow> Inr (sort (internal_filter E (netloc b) unique_links)))
                     else Inr (sort unique_links)))"

section \<open>History store\<close>

text \<open>
  The history file \<^verbatim>\<open>link_extractor_data/history.json\<close> is absent, or present and not
  readable as JSON (\<^verbatim>\<open>json.load\<close> raises), or holds a JSON value; what \<^verbatim>\<open>json.dump\<close>
  writes is what \<^verbatim>\<open>json.load\<close> reads back. \<open>writable\<close> says whether opening the file for
  writing succeeds. \<open>requests_made\<close> records the URLs of the HTTP requests sent so far.
  Creating the data directory always succeeds.
\<close>

datatype stored_file = Absent | Unreadable | Stored json

record state =
  history_file :: stored_file
  writable :: bool
  requests_made :: "string list"

text \<open>\<^verbatim>\<open>load_history()\<close>.\<close>

definition load_history :: "state \<Rightarrow> json" where
  "load_history st =
     (case history_file st of
        Absent \<Rightarrow> JArr []
      | Unreadable \<Rightarrow> JArr []
      | Stored j \<Rightarrow> j)"

text \<open>\<^verbatim>\<open>save_history(data)\<close>: the flag returned and the state left. Only a list has
  \<^verbatim>\<open>insert\<close>; every exception inside is caught and gives \<^verbatim>\<open>False\<close>.\<close>

definition save_history :: "state \<Rightarrow> json \<Rightarrow> bool \<times> state" where
  "save_history st data =
     (case load_history st of
        JArr loaded \<Rightarrow>
          (let history = data # loaded;
               history' = (if length history > 50 then take 50 history else history)
           in if writable st
              then (True, st\<lparr>history_file := Stored (JArr history')\<rparr>)
              else (False, st))
      | _ \<Rightarrow> (False, st))"

text \<open>The loop of \<^verbatim>\<open>get_previous_data\<close>: the first item whose \<^verbatim>\<open>base_url\<close> is the URL.\<close>

fun find_previous :: "string \<Rightarrow> json list \<Rightarrow> exn + json option" where
  "find_previous url [] = Inr None"
| "find_previous url (item # items) =
     (case py_get item ''base_url'' JNull of
        Inl e \<Rightarrow> Inl e
      | Inr v \<Rightarrow> if v = JStr url then Inr (Some item) else find_previous url items)"

text \<open>\<^verbatim>\<open>get_previous_data(url)\<close>.\<close>

definition get_previous_data :: "state \<Rightarrow> string \<Rightarrow> exn + json option" where
  "get_previous_data st url =
     (case py_iter (load_history st) of
        Inl e \<Rightarrow> Inl e
      | Inr items \<Rightarrow> find_previous url items)"

section \<open>Extraction request handler\<close>

text \<open>The dictionary \<^verbatim>\<open>result\<close> that the handler builds, stores and returns.\<close>

record extraction =
  base_url :: string
  all_links :: "string list"
  new_links :: "string list"
  timestamp :: string
  total_count :: nat
  new_count :: nat
  options :: json

definition to_json :: "extraction \<Rightarrow> json" where
  "to_json r =
     JObj [(''base_url'', JStr (base_url r)),
           (''all_links'', JArr (map JStr (all_links r))),
           (''new_links'', JArr (map JStr (new_links r))),
           (''timestamp'', JStr (timestamp r)),
           (''total_count'', JNum (int (total_count r))),
           (''new_count'', JNum (int (new_count r))),
           (''options'', options r)]"

text \<open>
  The error messages of the handler, in the order of the source: no URL given, "give a
  valid URL" (scheme or host missing), "invalid URL format" (the parser raised), the page
  could not be fetched (with the text of the exception), unexpected error (with the
  exception).
\<close>

datatype message =
    NoUrlGiven
  | InvalidUrl
  | InvalidUrlFormat
  | FetchFailed string
  | Unexpected exn

datatype body = Error message | Result extraction

type_synonym response = "body \<times> nat"

text \<open>The difference with the previous record (lines 168 to 172 of the source).\<close>

definition diff_links :: "json option \<Rightarrow> string list \<Rightarrow> exn + string list" where
  "diff_links previous_data links =
     (case previous_data of
        None \<Rightarrow> Inr links
      | Some pd \<Rightarrow>
          if truthy pd
          then (case py_get pd ''all_links'' (JArr []) of
                  Inl e \<Rightarrow> Inl e
                | Inr v \<Rightarrow>
                    (case py_set v of
                       Inl e \<Rightarrow> Inl e
                     | Inr previous_links \<Rightarrow>
                         Inr (filter (\<lambda>link. JStr link \<notin> set previous_links) links)))
          else Inr links)"

text \<open>
  \<^verbatim>\<open>extract_links()\<close>, the handler of \<^verbatim>\<open>POST /api/extract\<close>. Its argument is the outcome
  of \<^verbatim>\<open>request.get_json()\<close>: \<open>Inl e\<close> when the call raises (the body is not JSON),
  \<open>Inr data\<close> when it returns the parsed body \<open>data\<close>. The result is the response (body
  and status) and the state left. An exception that reaches the outer \<^verbatim>\<open>except\<close> gives
  status 500.
\<close>

definition extract_links :: "env \<Rightarrow> state \<Rightarrow> exn + json \<Rightarrow> response \<times> state" where
  "extract_links E st request =
     (case request of
        Inl e \<Rightarrow> ((Error (Unexpected e), 500), st)
      | Inr data \<Rightarrow>
     (if \<not> truthy data then ((Error NoUrlGiven, 400), st)
      else
      (case py_in ''url'' data of
        Inl e \<Rightarrow> ((Error (Unexpected e), 500), st)
      | Inr has_url \<Rightarrow>
      (if \<not> has_url then ((Error NoUrlGiven, 400), st)
       else
      (case py_getitem data ''url'' of
        Inl e \<Rightarrow> ((Error (Unexpected e), 500), st)
      | Inr u \<Rightarrow>
      (case py_strip u of
        Inl e \<Rightarrow> ((Error (Unexpected e), 500), st)
      | Inr target_url \<Rightarrow>
      (case py_get data ''options'' (JObj []) of
        Inl e \<Rightarrow> ((Error (Unexpected e), 500), st)
      | Inr opts \<Rightarrow>
      (case urlparse E target_url [] of
        Inl e \<Rightarrow> ((Error InvalidUrlFormat, 400), st)
      | Inr parsed_url \<Rightarrow>
      (if scheme parsed_url = [] \<or> netloc parsed_url = []
       then ((Error InvalidUrl, 400), st)
       else
        (let st1 = st\<lparr>requests_made := requests_made st @ [target_url]\<rparr>
         in (case fetch E target_url of
              RequestFailed cause \<Rightarrow> ((Error (FetchFailed cause), 400), st1)
            | Raised e \<Rightarrow> ((Error (Unexpected e), 500), st1)
            | Page text \<Rightarrow>
            (case extract_links_from_html E text target_url opts of
              Inl e \<Rightarrow> ((Error (Unexpected e), 500), st1)
            | Inr links \<Rightarrow>
            (case get_previous_data st1 target_url of
              Inl e \<Rightarrow> ((Error (Unexpected e), 500), st1)
            | Inr previous_data \<Rightarrow>
            (case diff_links previous_data links of
              Inl e \<Rightarrow> ((Error (Unexpected e), 500), st1)
            | Inr new \<Rightarrow>
                (let result = \<lparr>base_url = target_url, all_links = links, new_links = new,
                                timestamp = now E, total_count = length links,
                                new_count = length new, options = opts\<rparr>
                 in ((Result result, 200),
                     snd (save_history st1 (to_json result))))))))))))))))))"

text \<open>Saving a sequence of records one after the other, the first of the list first.\<close>

definition save_all :: "state \<Rightarrow> json list \<Rightarrow> state" where
  "save_all st rs = fold (\<lambda>r s. snd (save_history s r)) rs st"

section \<open>A concrete world\<close>

text \<open>
  A world used to run the definitions: every page is the same document with five anchors,
  a fetch of \<^verbatim>\<open>https://down.example\<close> fails with a 404 status, a fetch of \<^verbatim>\<open>http://:80/\<close>
  fails because the URL names no host (both are \<^verbatim>\<open>RequestException\<close>s), every other
  fetch succeeds.
\<close>

definition page_hrefs :: "string list" where
  "page_hrefs = [''/a'', ''#'', '''', ''https://other.com/x'', ''/a?x=1#frag'']"

definition env0 :: env where
  "env0 = \<lparr>fetch = (\<lambda>u. if u = ''https://down.example''
                          then RequestFailed ''404 Client Error''
                          else if u = ''http://:80/''
                          then RequestFailed ''Invalid URL: No host supplied''
                          else Page ''<html>''),
            find_all_a = (\<lambda>html. page_hrefs),
            now = ''2024-01-01T00:00:00'',
            set_rank = (\<lambda>s. length s),
            bracketed_host_ok = (\<lambda>h. False),
            nfkc = (\<lambda>s. s)\<rparr>"

definition state0 :: state where
  "state0 = \<lparr>history_file = Absent, writable = True, requests_made = []\<rparr>"

section \<open>Properties of the link extractor\<close>

subsection \<open>The set of links does not depend on its iteration order\<close>

lemma set_list_of_set: "set (list_of_set E xs) = set xs"
  by (simp add: list_of_set_def)

lemma distinct_list_of_set: "distinct (list_of_set E xs)"
  by (simp add: list_of_set_def)

lemma distinct_internal_filter: "distinct xs \<Longrightarrow> distinct (internal_filter E d xs)"
  by (simp add: internal_filter_def)

lemma sort_filter_list_of_set:
  "sort (filter P (list_of_set E xs)) = sort (filter P (remdups xs))"
proof (rule sorted_distinct_set_unique)
  show "set (sort (filter P (list_of_set E xs))) = set (sort (filter P (remdups xs)))"
    by (simp add: set_list_of_set)
qed (simp_all add: distinct_list_of_set)

lemma sort_list_of_set: "sort (list_of_set E xs) = sort (remdups xs)"
  using sort_filter_list_of_set [of "\<lambda>x. True" E xs] by simp

text \<open>Every enumeration of the set without repetition is the iteration order under some
  rank: the model of \<^verbatim>\<open>list(set(xs))\<close> leaves no order out.\<close>

lemma position_Cons:
  "position (u # us) x = (if u = x then 0 else Suc (position us x))"
  by (simp add: position_def)

lemma sorted_positions: "distinct us \<Longrightarrow> sorted (map (position us) us)"
proof (induction us)
  case Nil
  then show ?case by simp
next
  case (Cons u us)
  then have "map (position (u # us)) us = map (\<lambda>x. Suc (position us x)) us"
    by (auto simp: position_Cons)
  then have shape: "map (position (u # us)) (u # us)
                      = 0 # map (\<lambda>x. Suc (position us x)) us"
    by (simp add: position_Cons)
  from Cons have "sorted (map (\<lambda>x. Suc (position us x)) us)"
    by (simp add: sorted_wrt_map sorted_map)
  then show ?case
    unfolding shape by simp
qed

lemma nth_position: "x \<in> set us \<Longrightarrow> us ! position us x = x"
  by (induction us) (auto simp: position_Cons)

lemma inj_on_position: "inj_on (position us) (set us)"
  by (rule inj_onI) (metis nth_position)

lemma list_of_set_any_order:
  assumes "distinct us" and "set us = set xs"
  shows "list_of_set (E\<lparr>set_rank := position us\<rparr>) xs = us"
proof -
  have "sort_key (position us) (remdups xs) = us"
  proof (rule map_sorted_distinct_set_unique [where f = "position us"])
    show "inj_on (position us) (set (sort_key (position us) (remdups xs)) \<union> set us)"
      using assms(2) inj_on_position [of us] by simp
    show "distinct (map (position us) (sort_key (position us) (remdups xs)))"
      using assms(2) inj_on_position [of us] by (simp add: distinct_map)
    show "distinct (map (position us) us)"
      using assms(1) inj_on_position [of us] by (simp add: distinct_map)
    show "sorted (map (position us) us)"
      using assms(1) by (rule sorted_positions)
  qed (simp_all add: assms(2))
  then show ?thesis by (simp add: list_of_set_def)
qed

text \<open>The extractor written without the iteration order of the set.\<close>

lemma extract_links_from_html_canonical:
  "extract_links_from_html E html base options0 =
     (let opts = (if options0 = JNull then default_options else options0)
      in case collect_links E base opts [] (find_all_a E html) of
           Inl e \<Rightarrow> Inl e
         | Inr links \<Rightarrow>
             (case py_get opts ''internal_only'' (JBool True) of
                Inl e \<Rightarrow> Inl e
              | Inr io \<Rightarrow>
                  if truthy io
                  then (case urlparse E base [] of
                          Inl e \<Rightarrow> Inl e
                        | Inr b \<Rightarrow> Inr (sort (internal_filter E (netloc b) (remdups links))))
                  else Inr (sort (remdups links))))"
  by (simp add: extract_links_from_html_def Let_def internal_filter_def
        sort_filter_list_of_set sort_list_of_set split: sum.splits)

text \<open>Nothing but \<^const>\<open>list_of_set\<close> reads the rank.\<close>

lemma bracketed_host_ok_rank:
  "bracketed_host_ok (E\<lparr>set_rank := r\<rparr>) = bracketed_host_ok E"
  by simp

lemma find_all_a_rank: "find_all_a (E\<lparr>set_rank := r\<rparr>) = find_all_a E"
  by simp

lemma checknetloc_rank: "checknetloc (E\<lparr>set_rank := r\<rparr>) n = checknetloc E n"
  by (simp add: checknetloc_def)

lemma urlsplit_rank: "urlsplit (E\<lparr>set_rank := r\<rparr>) u s = urlsplit E u s"
  unfolding urlsplit_def checknetloc_rank bracketed_host_ok_rank ..

lemma urlparse_rank: "urlparse (E\<lparr>set_rank := r\<rparr>) u s = urlparse E u s"
  unfolding urlparse_def urlsplit_rank ..

lemma urljoin_rank: "urljoin (E\<lparr>set_rank := r\<rparr>) b u = urljoin E b u"
  unfolding urljoin_def urlparse_rank ..

lemma normalize_url_rank:
  "normalize_url (E\<lparr>set_rank := r\<rparr>) u b rq ra = normalize_url E u b rq ra"
  unfolding normalize_url_def urljoin_rank urlparse_rank ..

lemma collect_links_rank:
  "collect_links (E\<lparr>set_rank := r\<rparr>) b opts acc hs = collect_links E b opts acc hs"
  by (induction hs arbitrary: acc)
     (simp_all add: normalize_url_rank split: sum.splits option.splits)

lemma internal_filter_rank:
  "internal_filter (E\<lparr>set_rank := r\<rparr>) d xs = internal_filter E d xs"
  unfolding internal_filter_def urlparse_rank ..

subsection \<open>Sorted, duplicate-free output\<close>

text \<open>
  Claim C1. Whatever the HTML input, the base URL and the options, the sequence that the
  link extractor returns has no duplicate entry and is sorted in ascending order of the
  strings.
\<close>

theorem extract_links_sorted_distinct:
  "extract_links_from_html E html base opts = Inr links \<Longrightarrow>
     sorted links \<and> distinct links"
  by (auto simp: extract_links_from_html_def Let_def distinct_list_of_set
        distinct_internal_filter split: sum.splits if_splits)

theorem extract_links_sorted_distinct_witness:
  "extract_links_from_html env0 ''<html>'' ''https://site.com''
     (JObj [(''internal_only'', JBool False), (''remove_query'', JBool False)])
     = Inr [''https://other.com/x'', ''https://site.com/a'', ''https://site.com/a?x=1'']
   \<and> sorted [''https://other.com/x'', ''https://site.com/a'', ''https://site.com/a?x=1'']
   \<and> distinct [''https://other.com/x'', ''https://site.com/a'', ''https://site.com/a?x=1'']"
proof -
  have run: "extract_links_from_html env0 ''<html>'' ''https://site.com''
     (JObj [(''internal_only'', JBool False), (''remove_query'', JBool False)])
     = Inr [''https://other.com/x'', ''https://site.com/a'', ''https://site.com/a?x=1'']"
    by code_simp
  show ?thesis
    using run extract_links_sorted_distinct [OF run] by simp
qed

subsection \<open>Determinism\<close>

text \<open>
  Claim C9. The link extractor is deterministic: two runs on the same HTML, base URL and
  options return equal sequences although the duplicates are removed through an unordered
  set, whose iteration order may differ from one run to the other (here: two ranks), because
  the final sort fixes the order.
\<close>

theorem extract_links_deterministic:
  "extract_links_from_html (E\<lparr>set_rank := r\<rparr>) html base opts =
   extract_links_from_html E html base opts"
  unfolding extract_links_from_html_canonical collect_links_rank urlparse_rank
    internal_filter_rank find_all_a_rank ..

theorem extract_links_deterministic_witness:
  "list_of_set (env0\<lparr>set_rank := (\<lambda>s. 100 - length s)\<rparr>)
      [''https://site.com/a'', ''https://other.com/x'']
    \<noteq> list_of_set env0 [''https://site.com/a'', ''https://other.com/x'']
   \<and> extract_links_from_html (env0\<lparr>set_rank := (\<lambda>s. 100 - length s)\<rparr>) ''<html>''
        ''https://site.com'' (JObj [(''internal_only'', JBool False)])
     = extract_links_from_html env0 ''<html>'' ''https://site.com''
        (JObj [(''internal_only'', JBool False)])"
proof -
  have differ: "list_of_set (env0\<lparr>set_rank := (\<lambda>s. 100 - length s)\<rparr>)
      [''https://site.com/a'', ''https://other.com/x'']
    \<noteq> list_of_set env0 [''https://site.com/a'', ''https://other.com/x'']"
    by code_simp
  show ?thesis
    using differ
      extract_links_deterministic [where E = env0 and r = "\<lambda>s. 100 - length s"
        and html = "''<html>''" and base = "''https://site.com''"
        and opts = "JObj [(''internal_only'', JBool False)]"]
    by simp
qed

subsection \<open>Scenario A\<close>

text \<open>
  Claim C5. For a page whose anchors carry the hrefs \<^verbatim>\<open>/a\<close>, \<^verbatim>\<open>#\<close>, the empty string,
  \<^verbatim>\<open>https://other.com/x\<close> and \<^verbatim>\<open>/a?x=1#frag\<close>, with the base URL \<^verbatim>\<open>https://site.com\<close> and
  the default options (no options, an empty dictionary, or the three defaults written out),
  the extractor returns the single link \<^verbatim>\<open>https://site.com/a\<close>.
\<close>

theorem scenario_a_default_options:
  assumes "find_all_a E html = [''/a'', ''#'', '''', ''https://other.com/x'', ''/a?x=1#frag'']"
  shows "extract_links_from_html E html ''https://site.com'' JNull
           = Inr [''https://site.com/a'']
       \<and> extract_links_from_html E html ''https://site.com'' (JObj [])
           = Inr [''https://site.com/a'']
       \<and> extract_links_from_html E html ''https://site.com'' default_options
           = Inr [''https://site.com/a'']"
proof -
  have a: "extract_links_from_html E html ''https://site.com'' JNull
             = Inr [''https://site.com/a'']"
    unfolding extract_links_from_html_canonical assms by code_simp
  have b: "extract_links_from_html E html ''https://site.com'' (JObj [])
             = Inr [''https://site.com/a'']"
    unfolding extract_links_from_html_canonical assms by code_simp
  have c: "extract_links_from_html E html ''https://site.com'' default_options
             = Inr [''https://site.com/a'']"
    unfolding extract_links_from_html_canonical assms by code_simp
  from a b c show ?thesis by simp
qed

theorem scenario_a_default_options_witness:
  "find_all_a env0 ''<html>'' = [''/a'', ''#'', '''', ''https://other.com/x'', ''/a?x=1#frag'']
   \<and> extract_links_from_html env0 ''<html>'' ''https://site.com'' JNull
       = Inr [''https://site.com/a'']"
proof -
  have page: "find_all_a env0 ''<html>''
                = [''/a'', ''#'', '''', ''https://other.com/x'', ''/a?x=1#frag'']"
    by (simp add: env0_def page_hrefs_def)
  show ?thesis
    using page scenario_a_default_options [OF page] by simp
qed

subsection \<open>The host filter\<close>


lemma collect_links_Cons_cases:
  assumes "collect_links E base opts acc (h # hs) = Inr links"
  shows "collect_links E base opts acc hs = Inr links
       \<or> (\<exists>rq ra l. h \<noteq> [] \<and> h \<noteq> ''#''
            \<and> py_get opts ''remove_query'' (JBool True) = Inr rq
            \<and> py_get opts ''remove_anchors'' (JBool True) = Inr ra
            \<and> normalize_url E h base rq ra = Some l \<and> l \<noteq> []
            \<and> collect_links E base opts (acc @ [l]) hs = Inr links)"
  using assms by (simp split: if_splits sum.splits option.splits)

lemma collect_links_hit:
  assumes "collect_links E base opts acc (h # hs) = Inr links"
    and "h \<noteq> []" and "h \<noteq> ''#''"
    and "py_get opts ''remove_query'' (JBool True) = Inr rq"
    and "py_get opts ''remove_anchors'' (JBool True) = Inr ra"
    and "normalize_url E h base rq ra = Some link" and "link \<noteq> []"
  shows "collect_links E base opts (acc @ [link]) hs = Inr links"
  using assms by simp

lemma collect_links_acc:
  "collect_links E base opts acc hrefs = Inr links \<Longrightarrow> set acc \<subseteq> set links"
proof (induction hrefs arbitrary: acc)
  case Nil
  then show ?case by simp
next
  case (Cons h hrefs)
  from collect_links_Cons_cases [OF Cons.prems] show ?case
  proof
    assume "collect_links E base opts acc hrefs = Inr links"
    then show ?thesis by (rule Cons.IH)
  next
    assume "\<exists>rq ra l. h \<noteq> [] \<and> h \<noteq> ''#''
            \<and> py_get opts ''remove_query'' (JBool True) = Inr rq
            \<and> py_get opts ''remove_anchors'' (JBool True) = Inr ra
            \<and> normalize_url E h base rq ra = Some l \<and> l \<noteq> []
            \<and> collect_links E base opts (acc @ [l]) hrefs = Inr links"
    then obtain l where "collect_links E base opts (acc @ [l]) hrefs = Inr links" by blast
    then have "set (acc @ [l]) \<subseteq> set links" by (rule Cons.IH)
    then show ?thesis by simp
  qed
qed

lemma collect_links_keeps:
  assumes "collect_links E base opts acc hrefs = Inr links"
    and "href \<in> set hrefs" and "href \<noteq> []" and "href \<noteq> ''#''"
    and "py_get opts ''remove_query'' (JBool True) = Inr rq"
    and "py_get opts ''remove_anchors'' (JBool True) = Inr ra"
    and "normalize_url E href base rq ra = Some link" and "link \<noteq> []"
  shows "link \<in> set links"
  using assms(1,2)
proof (induction hrefs arbitrary: acc)
  case Nil
  then show ?case by simp
next
  case (Cons h hrefs)
  show ?case
  proof (cases "h = href")
    case True
    with Cons.prems(1) have "collect_links E base opts acc (href # hrefs) = Inr links"
      by simp
    from collect_links_hit [OF this assms(3-8)]
    have "collect_links E base opts (acc @ [link]) hrefs = Inr links" .
    then have "set (acc @ [link]) \<subseteq> set links"
      by (rule collect_links_acc)
    then show ?thesis by simp
  next
    case False
    with Cons.prems(2) have in_rest: "href \<in> set hrefs" by simp
    from collect_links_Cons_cases [OF Cons.prems(1)]
    obtain acc' where "collect_links E base opts acc' hrefs = Inr links"
      by blast
    from Cons.IH [OF this in_rest] show ?thesis .
  qed
qed

lemma internal_filter_netloc:
  "link \<in> set (internal_filter E d xs) \<Longrightarrow> \<exists>p. urlparse E link [] = Inr p \<and> netloc p = d"
  by (auto simp: internal_filter_def split: sum.splits)

lemma hostname_netloc: "netloc p = netloc b \<Longrightarrow> hostname p = hostname b"
  by (simp add: hostname_def)

lemma extract_obj:
  "extract_links_from_html E html base (JObj kvs) =
     (case collect_links E base (JObj kvs) [] (find_all_a E html) of
        Inl e \<Rightarrow> Inl e
      | Inr links \<Rightarrow>
          if truthy (case map_of kvs ''internal_only'' of None \<Rightarrow> JBool True | Some v \<Rightarrow> v)
          then (case urlparse E base [] of
                  Inl e \<Rightarrow> Inl e
                | Inr b \<Rightarrow> Inr (sort (internal_filter E (netloc b) (remdups links))))
          else Inr (sort (remdups links)))"
  by (simp add: extract_links_from_html_canonical Let_def split: sum.splits)

lemma extract_internal_only_on:
  assumes "extract_links_from_html E html base (JObj kvs) = Inr links"
    and "map_of kvs ''internal_only'' = Some (JBool True)"
  shows "\<exists>b collected. urlparse E base [] = Inr b
           \<and> links = sort (internal_filter E (netloc b) (remdups collected))"
  using assms unfolding extract_obj
  by (auto split: sum.splits)

lemma extract_internal_only_off:
  assumes "extract_links_from_html E html base (JObj kvs) = Inr links"
    and "map_of kvs ''internal_only'' = Some (JBool False)"
  shows "\<exists>collected. collect_links E base (JObj kvs) [] (find_all_a E html) = Inr collected
           \<and> links = sort (remdups collected)"
  using assms unfolding extract_obj
  by (auto split: sum.splits)

text \<open>
  Claim C3. The \<^verbatim>\<open>internal_only\<close> option (\<^verbatim>\<open>internalOnly\<close> in the specification) controls
  the host filter. When the options set it to true, every returned link parses to the same
  \<^verbatim>\<open>netloc\<close> as the base URL, by equality of strings, and so to the same host. When the
  options set it to false, every link that the normaliser produces from an anchor of the
  page is in the result, whatever its host.
\<close>

theorem internal_only_controls_host_filter:
  assumes "extract_links_from_html E html base (JObj kvs) = Inr links"
  shows "(map_of kvs ''internal_only'' = Some (JBool True) \<longrightarrow>
            (\<forall>link \<in> set links. \<exists>p b.
                urlparse E link [] = Inr p \<and> urlparse E base [] = Inr b
                \<and> netloc p = netloc b \<and> hostname p = hostname b))
       \<and> (map_of kvs ''internal_only'' = Some (JBool False) \<longrightarrow>
            (\<forall>href \<in> set (find_all_a E html). \<forall>rq ra link.
                href \<noteq> [] \<and> href \<noteq> ''#''
                \<and> py_get (JObj kvs) ''remove_query'' (JBool True) = Inr rq
                \<and> py_get (JObj kvs) ''remove_anchors'' (JBool True) = Inr ra
                \<and> normalize_url E href base rq ra = Some link \<and> link \<noteq> []
                \<longrightarrow> link \<in> set links))"
proof (intro conjI impI ballI allI)
  fix link
  assume on: "map_of kvs ''internal_only'' = Some (JBool True)" and mem: "link \<in> set links"
  from extract_internal_only_on [OF assms on] obtain b collected
    where b: "urlparse E base [] = Inr b"
      and links: "links = sort (internal_filter E (netloc b) (remdups collected))"
    by blast
  from mem links have "link \<in> set (internal_filter E (netloc b) (remdups collected))"
    by simp
  from internal_filter_netloc [OF this]
  obtain p where "urlparse E link [] = Inr p" "netloc p = netloc b" by blast
  moreover from \<open>netloc p = netloc b\<close> have "hostname p = hostname b"
    by (rule hostname_netloc)
  ultimately show "\<exists>p b. urlparse E link [] = Inr p \<and> urlparse E base [] = Inr b
                \<and> netloc p = netloc b \<and> hostname p = hostname b"
    using b by blast
next
  fix href rq ra link
  assume off: "map_of kvs ''internal_only'' = Some (JBool False)"
    and href: "href \<in> set (find_all_a E html)"
    and rest: "href \<noteq> [] \<and> href \<noteq> ''#''
                \<and> py_get (JObj kvs) ''remove_query'' (JBool True) = Inr rq
                \<and> py_get (JObj kvs) ''remove_anchors'' (JBool True) = Inr ra
                \<and> normalize_url E href base rq ra = Some link \<and> link \<noteq> []"
  from extract_internal_only_off [OF assms off] obtain collected
    where c: "collect_links E base (JObj kvs) [] (find_all_a E html) = Inr collected"
    and links: "links = sort (remdups collected)"
    by blast
  from rest have r: "href \<noteq> []" "href \<noteq> ''#''"
      "py_get (JObj kvs) ''remove_query'' (JBool True) = Inr rq"
      "py_get (JObj kvs) ''remove_anchors'' (JBool True) = Inr ra"
      "normalize_url E href base rq ra = Some link" "link \<noteq> []"
    by blast+
  have "link \<in> set collected"
    by (rule collect_links_keeps [OF c href r])
  with links show "link \<in> set links"
    by simp
qed

theorem internal_only_controls_host_filter_witness:
  "extract_links_from_html env0 ''<html>'' ''https://site.com''
       (JObj [(''internal_only'', JBool True)]) = Inr [''https://site.com/a'']
   \<and> (\<exists>p b. urlparse env0 ''https://site.com/a'' [] = Inr p
          \<and> urlparse env0 ''https://site.com'' [] = Inr b
          \<and> netloc p = netloc b \<and> hostname p = hostname b)
   \<and> extract_links_from_html env0 ''<html>'' ''https://site.com''
       (JObj [(''internal_only'', JBool False)])
       = Inr [''https://other.com/x'', ''https://site.com/a'']
   \<and> normalize_url env0 ''https://other.com/x'' ''https://site.com'' (JBool True) (JBool True)
       = Some ''https://other.com/x''
   \<and> ''https://other.com/x'' \<in> set [''https://other.com/x'', ''https://site.com/a'']"
proof -
  have on: "extract_links_from_html env0 ''<html>'' ''https://site.com''
       (JObj [(''internal_only'', JBool True)]) = Inr [''https://site.com/a'']"
    by code_simp
  have off: "extract_links_from_html env0 ''<html>'' ''https://site.com''
       (JObj [(''internal_only'', JBool False)])
       = Inr [''https://other.com/x'', ''https://site.com/a'']"
    by code_simp
  have norm: "normalize_url env0 ''https://other.com/x'' ''https://site.com''
       (JBool True) (JBool True) = Some ''https://other.com/x''"
    by code_simp
  have page: "''https://other.com/x'' \<in> set (find_all_a env0 ''<html>'')"
    by (simp add: env0_def page_hrefs_def)
  from internal_only_controls_host_filter [OF on]
  have same: "\<exists>p b. urlparse env0 ''https://site.com/a'' [] = Inr p
          \<and> urlparse env0 ''https://site.com'' [] = Inr b
          \<and> netloc p = netloc b \<and> hostname p = hostname b"
    by simp
  from internal_only_controls_host_filter [OF off] page norm
  have kept: "''https://other.com/x'' \<in> set [''https://other.com/x'', ''https://site.com/a'']"
    by simp
  from on same off norm kept show ?thesis by blast
qed

section \<open>Properties of the history store\<close>

lemma truncate_take: "(if n < length xs then take n xs else xs) = take n xs"
  by simp

lemma take_Cons_take: "take n (x # take n xs) = take n (x # xs)"
  by (cases n) simp_all

lemma save_history_ok:
  assumes "writable st" and "load_history st = JArr h"
  shows "save_history st r = (True, st\<lparr>history_file := Stored (JArr (take 50 (r # h)))\<rparr>)"
proof -
  have "(if 50 < length (r # h) then take 50 (r # h) else r # h) = take 50 (r # h)"
    by (rule truncate_take)
  with assms show ?thesis
    by (simp add: save_history_def Let_def del: take_Suc_Cons)
qed

lemma load_history_Stored: "load_history (st\<lparr>history_file := Stored j\<rparr>) = j"
  by (simp add: load_history_def)

lemma take_append_take: "take n (xs @ take n ys) = take n (xs @ ys)"
  by (simp add: min_def)

lemma load_save_all:
  "writable st \<Longrightarrow> load_history st = JArr h \<Longrightarrow>
     load_history (save_all st rs) = JArr (if rs = [] then h else take 50 (rev rs @ h))"
proof (induction rs arbitrary: st h)
  case Nil
  then show ?case
    by (simp add: save_all_def)
next
  case (Cons r rs)
  let ?st = "st\<lparr>history_file := Stored (JArr (take 50 (r # h)))\<rparr>"
  have step: "save_all st (r # rs) = save_all ?st rs"
    using Cons.prems by (simp add: save_all_def save_history_ok del: take_Suc_Cons)
  have "writable ?st" using Cons.prems by simp
  moreover have "load_history ?st = JArr (take 50 (r # h))"
    by (rule load_history_Stored)
  ultimately have ih: "load_history (save_all ?st rs)
      = JArr (if rs = [] then take 50 (r # h) else take 50 (rev rs @ take 50 (r # h)))"
    by (rule Cons.IH)
  have "(if rs = [] then take 50 (r # h) else take 50 (rev rs @ take 50 (r # h)))
          = take 50 (rev (r # rs) @ h)"
  proof (cases "rs = []")
    case True
    then show ?thesis by simp
  next
    case False
    have "rev (r # rs) @ h = rev rs @ (r # h)" by simp
    with False show ?thesis
      by (simp only: take_append_take if_False)
  qed
  with ih show ?case
    by (simp only: step list.simps if_False)
qed

text \<open>
  Claim C7. History capacity: on a store that holds a sequence of records (or no readable
  file) and can be written, saving a record puts it at position 0 and keeps the first 50
  entries; after 51 records have been saved one after the other, the store holds exactly
  50 records, the most recent first, the first one saved having been dropped.
\<close>

theorem history_capped_at_50:
  assumes "writable st" and "load_history st = JArr h"
  shows "save_history st r = (True, st\<lparr>history_file := Stored (JArr (take 50 (r # h)))\<rparr>)
       \<and> load_history (snd (save_history st r)) = JArr (take 50 (r # h))
       \<and> (length rs = 51 \<longrightarrow>
            load_history (save_all st rs) = JArr (rev (tl rs))
            \<and> length (rev (tl rs)) = 50)"
proof (intro conjI impI)
  show one: "save_history st r
      = (True, st\<lparr>history_file := Stored (JArr (take 50 (r # h)))\<rparr>)"
    using assms by (rule save_history_ok)
  show "load_history (snd (save_history st r)) = JArr (take 50 (r # h))"
    by (simp only: one snd_conv load_history_Stored)
next
  assume len: "length rs = 51"
  then obtain r0 rest where rs: "rs = r0 # rest" and rest: "length rest = 50"
    by (cases rs) simp_all
  from rest have "take 50 (rev rs @ h) = rev rest"
    by (simp add: rs)
  moreover from len have "rs \<noteq> []" by auto
  ultimately show "load_history (save_all st rs) = JArr (rev (tl rs))"
    using load_save_all [OF assms, of rs] by (simp add: rs)
  from rest show "length (rev (tl rs)) = 50"
    by (simp add: rs)
qed


theorem history_capped_at_50_witness:
  "writable (state0\<lparr>history_file := Stored (JArr [JStr ''old''])\<rparr>)
   \<and> load_history (state0\<lparr>history_file := Stored (JArr [JStr ''old''])\<rparr>)
       = JArr [JStr ''old'']
   \<and> length (map (\<lambda>n. JNum (int n)) [0..<51]) = 51
   \<and> load_history (save_all (state0\<lparr>history_file := Stored (JArr [JStr ''old''])\<rparr>)
         (map (\<lambda>n. JNum (int n)) [0..<51]))
       = JArr (rev (tl (map (\<lambda>n. JNum (int n)) [0..<51])))"
proof -
  have w: "writable (state0\<lparr>history_file := Stored (JArr [JStr ''old''])\<rparr>)"
    by (simp add: state0_def)
  have l: "load_history (state0\<lparr>history_file := Stored (JArr [JStr ''old''])\<rparr>)
             = JArr [JStr ''old'']"
    by (rule load_history_Stored)
  have n: "length (map (\<lambda>n. JNum (int n)) [0..<51]) = 51"
    by simp
  from history_capped_at_50 [OF w l, of JNull "map (\<lambda>n. JNum (int n)) [0..<51]"] n
  have "load_history (save_all (state0\<lparr>history_file := Stored (JArr [JStr ''old''])\<rparr>)
         (map (\<lambda>n. JNum (int n)) [0..<51]))
       = JArr (rev (tl (map (\<lambda>n. JNum (int n)) [0..<51])))"
    by blast
  with w l n show ?thesis by blast
qed

section \<open>Properties of the request handler\<close>

lemma requests_made_save: "requests_made (snd (save_history st r)) = requests_made st"
  by (simp add: save_history_def Let_def split: json.splits)



text \<open>An exception of the fetch that is not a \<^verbatim>\<open>RequestException\<close> passes the inner
  \<^verbatim>\<open>except\<close> and reaches the outer one: the response is status 500, and here too no record
  is appended.\<close>

lemma other_fetch_exception_gives_500:
  assumes "extract_links E st request = (resp, st')"
    and "requests_made st' = requests_made st @ [u]"
    and "fetch E u = Raised e"
  shows "resp = (Error (Unexpected e), 500) \<and> history_file st' = history_file st"
  using assms
  by (auto simp: extract_links_def Let_def requests_made_save load_history_def
        split: if_splits sum.splits fetched.splits)

subsection \<open>Input validation\<close>

lemma urlparse_empty:
  "urlparse E [] [] =
     Inr \<lparr>scheme = [], netloc = [], path = [], params = [], query = [], fragment = []\<rparr>"
  by code_simp

lemma reject_not_json:
  "extract_links E st (Inl e) = ((Error (Unexpected e), 500), st)"
  by (simp add: extract_links_def)

lemma reject_falsy:
  "\<not> truthy data \<Longrightarrow> extract_links E st (Inr data) = ((Error NoUrlGiven, 400), st)"
  by (simp add: extract_links_def)

lemma reject_no_url_key:
  "map_of kvs ''url'' = None \<Longrightarrow>
     extract_links E st (Inr (JObj kvs)) = ((Error NoUrlGiven, 400), st)"
  by (simp add: extract_links_def)

lemma reject_unparsed:
  assumes "map_of kvs ''url'' = Some (JStr u)"
    and "urlparse E (strip_with py_isspace u) [] = Inr p"
    and "scheme p = [] \<or> netloc p = []"
  shows "extract_links E st (Inr (JObj kvs)) = ((Error InvalidUrl, 400), st)"
proof -
  from assms(1) have "kvs \<noteq> []" by auto
  with assms show ?thesis
    by (simp add: extract_links_def)
qed

lemma reject_parser_error:
  assumes "map_of kvs ''url'' = Some (JStr u)"
    and "urlparse E (strip_with py_isspace u) [] = Inl e"
  shows "extract_links E st (Inr (JObj kvs)) = ((Error InvalidUrlFormat, 400), st)"
proof -
  from assms(1) have "kvs \<noteq> []" by auto
  with assms show ?thesis
    by (simp add: extract_links_def)
qed

text \<open>
  Claim C6, as the code has it. A request whose body is parsed as JSON to an object
  without the \<^verbatim>\<open>url\<close> key, or to a value that counts as false (\<^verbatim>\<open>null\<close>, an empty object),
  is rejected with status 400 and the "no URL" message. A request whose \<^verbatim>\<open>url\<close> is a string
  that is empty after trimming, or whose trimmed URL parses without a scheme or without a
  network location (the \<^verbatim>\<open>netloc\<close>: the host with any user information and port), is
  rejected with status 400 and the "give a valid URL" message; when the parser raises on
  the trimmed URL, with status 400 and the "invalid URL format" message. In every case the
  state is the one before the request: nothing was fetched and the history was not written.
\<close>

theorem validation_rejects_before_fetch:
  "(\<not> truthy data \<or> (\<exists>kvs. data = JObj kvs \<and> map_of kvs ''url'' = None)
      \<longrightarrow> extract_links E st (Inr data) = ((Error NoUrlGiven, 400), st))
   \<and> (\<forall>kvs u. data = JObj kvs \<and> map_of kvs ''url'' = Some (JStr u) \<longrightarrow>
        (strip_with py_isspace u = []
           \<longrightarrow> extract_links E st (Inr data) = ((Error InvalidUrl, 400), st))
      \<and> (\<forall>p. urlparse E (strip_with py_isspace u) [] = Inr p
               \<and> (scheme p = [] \<or> netloc p = [])
           \<longrightarrow> extract_links E st (Inr data) = ((Error InvalidUrl, 400), st))
      \<and> (\<forall>e. urlparse E (strip_with py_isspace u) [] = Inl e
           \<longrightarrow> extract_links E st (Inr data) = ((Error InvalidUrlFormat, 400), st)))"
proof (intro conjI allI impI)
  assume "\<not> truthy data \<or> (\<exists>kvs. data = JObj kvs \<and> map_of kvs ''url'' = None)"
  then show "extract_links E st (Inr data) = ((Error NoUrlGiven, 400), st)"
    using reject_falsy reject_no_url_key by blast
next
  fix kvs u
  assume d: "data = JObj kvs \<and> map_of kvs ''url'' = Some (JStr u)"
    and "strip_with py_isspace u = []"
  then have "urlparse E (strip_with py_isspace u) [] =
     Inr \<lparr>scheme = [], netloc = [], path = [], params = [], query = [], fragment = []\<rparr>"
    by (simp only: urlparse_empty)
  with d show "extract_links E st (Inr data) = ((Error InvalidUrl, 400), st)"
    using reject_unparsed by fastforce
next
  fix kvs u p
  assume "data = JObj kvs \<and> map_of kvs ''url'' = Some (JStr u)"
    and "urlparse E (strip_with py_isspace u) [] = Inr p \<and> (scheme p = [] \<or> netloc p = [])"
  then show "extract_links E st (Inr data) = ((Error InvalidUrl, 400), st)"
    using reject_unparsed by blast
next
  fix kvs u e
  assume "data = JObj kvs \<and> map_of kvs ''url'' = Some (JStr u)"
    and "urlparse E (strip_with py_isspace u) [] = Inl e"
  then show "extract_links E st (Inr data) = ((Error InvalidUrlFormat, 400), st)"
    using reject_parser_error by blast
qed

theorem validation_rejects_before_fetch_witness:
  "map_of [(''url'', JStr ''not a url'')] ''url'' = Some (JStr ''not a url'')
   \<and> urlparse env0 (strip_with py_isspace ''not a url'') [] =
       Inr \<lparr>scheme = [], netloc = [], path = ''not a url'', params = [], query = [],
            fragment = []\<rparr>
   \<and> extract_links env0 state0 (Inr (JObj [(''url'', JStr ''not a url'')]))
       = ((Error InvalidUrl, 400), state0)
   \<and> extract_links env0 state0 (Inr (JObj [(''link'', JStr ''https://site.com'')]))
       = ((Error NoUrlGiven, 400), state0)"
proof -
  have key: "map_of [(''url'', JStr ''not a url'')] ''url'' = Some (JStr ''not a url'')"
    by simp
  have parsed: "urlparse env0 (strip_with py_isspace ''not a url'') [] =
       Inr \<lparr>scheme = [], netloc = [], path = ''not a url'', params = [], query = [],
            fragment = []\<rparr>"
    by code_simp
  have nokey: "map_of [(''link'', JStr ''https://site.com'')] ''url'' = None"
    by simp
  from validation_rejects_before_fetch
         [of "JObj [(''url'', JStr ''not a url'')]" env0 state0] key parsed
  have a: "extract_links env0 state0 (Inr (JObj [(''url'', JStr ''not a url'')]))
       = ((Error InvalidUrl, 400), state0)"
    by simp
  from validation_rejects_before_fetch
         [of "JObj [(''link'', JStr ''https://site.com'')]" env0 state0] nokey
  have b: "extract_links env0 state0 (Inr (JObj [(''link'', JStr ''https://site.com'')]))
       = ((Error NoUrlGiven, 400), state0)"
    by simp
  from key parsed a b show ?thesis by blast
qed

text \<open>
  Claim C6 as stated fails at three requests. A \<^verbatim>\<open>url\<close> that is empty after trimming is
  rejected with the "give a valid URL" message, not with the "no URL" message. A request
  whose body is not JSON has no \<^verbatim>\<open>url\<close> field; \<^verbatim>\<open>get_json\<close> raises on it and the response is
  status 500, not 400. The URL \<^verbatim>\<open>http://:80/\<close> parses to a scheme and a network location
  with no host in it; it passes the validation, the request is sent, and the response is
  the one of a failed fetch.
\<close>

theorem blank_url_message_counterexample:
  "strip_with py_isspace ''  '' = []
   \<and> extract_links env0 state0 (Inr (JObj [(''url'', JStr ''  '')]))
       = ((Error InvalidUrl, 400), state0)
   \<and> (Error InvalidUrl, 400::nat) \<noteq> (Error NoUrlGiven, 400)
   \<and> extract_links env0 state0 (Inl (OtherError ''400 Bad Request''))
       = ((Error (Unexpected (OtherError ''400 Bad Request'')), 500), state0)
   \<and> urlparse env0 (strip_with py_isspace ''http://:80/'') []
       = Inr \<lparr>scheme = ''http'', netloc = '':80'', path = ''/'', params = [], query = [],
              fragment = []\<rparr>
   \<and> hostname \<lparr>scheme = ''http'', netloc = '':80'', path = ''/'', params = [], query = [],
                fragment = []\<rparr> = None
   \<and> extract_links env0 state0 (Inr (JObj [(''url'', JStr ''http://:80/'')]))
       = ((Error (FetchFailed ''Invalid URL: No host supplied''), 400),
          state0\<lparr>requests_made := [''http://:80/'']\<rparr>)
   \<and> requests_made (state0\<lparr>requests_made := [''http://:80/'']\<rparr>) \<noteq> requests_made state0"
proof -
  have blank: "strip_with py_isspace ''  '' = []"
    by code_simp
  have blank_run: "extract_links env0 state0 (Inr (JObj [(''url'', JStr ''  '')]))
       = ((Error InvalidUrl, 400), state0)"
    by code_simp
  have msg: "(Error InvalidUrl, 400::nat) \<noteq> (Error NoUrlGiven, 400)"
    by simp
  have not_json: "extract_links env0 state0 (Inl (OtherError ''400 Bad Request''))
       = ((Error (Unexpected (OtherError ''400 Bad Request'')), 500), state0)"
    by (simp add: extract_links_def)
  have parsed: "urlparse env0 (strip_with py_isspace ''http://:80/'') []
       = Inr \<lparr>scheme = ''http'', netloc = '':80'', path = ''/'', params = [], query = [],
              fragment = []\<rparr>"
    by code_simp
  have no_host: "hostname \<lparr>scheme = ''http'', netloc = '':80'', path = ''/'', params = [],
                query = [], fragment = []\<rparr> = None"
    by code_simp
  have sent_run: "extract_links env0 state0 (Inr (JObj [(''url'', JStr ''http://:80/'')]))
       = ((Error (FetchFailed ''Invalid URL: No host supplied''), 400),
          state0\<lparr>requests_made := [''http://:80/'']\<rparr>)"
    by code_simp
  have sent: "requests_made (state0\<lparr>requests_made := [''http://:80/'']\<rparr>)
                \<noteq> requests_made state0"
    by (simp add: state0_def)
  from blank blank_run msg not_json parsed no_host sent_run sent
  show ?thesis by blast
qed

subsection \<open>Options left out of the request\<close>

lemma collect_links_defaults:
  "collect_links E b (JObj []) acc hs = collect_links E b default_options acc hs"
  by (induction hs arbitrary: acc) (simp_all add: default_options_def split: option.splits)

lemma internal_only_default:
  "py_get default_options ''internal_only'' (JBool True) = Inr (JBool True)"
  by (simp add: default_options_def)

lemma extract_defaults:
  "extract_links_from_html E html b (JObj []) = extract_links_from_html E html b default_options"
  by (simp add: extract_links_from_html_canonical collect_links_defaults Let_def
        internal_only_default split: sum.splits)

lemma history_after_request:
  "get_previous_data (st\<lparr>requests_made := rs\<rparr>) u = get_previous_data st u"
  by (simp add: get_previous_data_def load_history_def)

text \<open>The handler once the body is known to be an object with a string under \<^verbatim>\<open>url\<close>.\<close>

lemma extract_links_on_url:
  assumes "map_of kvs ''url'' = Some (JStr u)"
  shows "extract_links E st (Inr (JObj kvs)) =
     (let target_url = strip_with py_isspace u;
          opts = (case map_of kvs ''options'' of None \<Rightarrow> JObj [] | Some v \<Rightarrow> v)
      in case urlparse E target_url [] of
           Inl e \<Rightarrow> ((Error InvalidUrlFormat, 400), st)
         | Inr parsed_url \<Rightarrow>
             if scheme parsed_url = [] \<or> netloc parsed_url = []
             then ((Error InvalidUrl, 400), st)
             else
               (let st1 = st\<lparr>requests_made := requests_made st @ [target_url]\<rparr>
                in case fetch E target_url of
                     RequestFailed cause \<Rightarrow> ((Error (FetchFailed cause), 400), st1)
                   | Raised e \<Rightarrow> ((Error (Unexpected e), 500), st1)
                   | Page text \<Rightarrow>
                   (case extract_links_from_html E text target_url opts of
                      Inl e \<Rightarrow> ((Error (Unexpected e), 500), st1)
                    | Inr links \<Rightarrow>
                    (case get_previous_data st target_url of
                       Inl e \<Rightarrow> ((Error (Unexpected e), 500), st1)
                     | Inr previous_data \<Rightarrow>
                     (case diff_links previous_data links of
                        Inl e \<Rightarrow> ((Error (Unexpected e), 500), st1)
                      | Inr new \<Rightarrow>
                          (let result = \<lparr>base_url = target_url, all_links = links,
                                          new_links = new, timestamp = now E,
                                          total_count = length links,
                                          new_count = length new, options = opts\<rparr>
                           in ((Result result, 200),
                               snd (save_history st1 (to_json result)))))))))"
proof -
  from assms have "kvs \<noteq> []" by auto
  with assms show ?thesis
    by (simp add: extract_links_def history_after_request Let_def
          split: sum.splits fetched.splits)
qed


text \<open>
  Claim C4, as the code has it. A request without the \<^verbatim>\<open>options\<close> field and the same
  request with the three options written out as true get the same status and, on an error,
  the same message; on success the two records agree on every field but \<^verbatim>\<open>options\<close>,
  which echoes what the request carried: the empty dictionary for the first, the three
  options for the second.
\<close>

theorem omitted_options_same_links:
  assumes "map_of kvs ''options'' = None"
    and "extract_links E st (Inr (JObj kvs)) = ((b1, c1), st1)"
    and "extract_links E st (Inr (JObj (kvs @ [(''options'', default_options)]))) = ((b2, c2), st2)"
  shows "c1 = c2
       \<and> (\<forall>m. b1 = Error m \<longrightarrow> b2 = Error m)
       \<and> (\<forall>r. b1 = Result r \<longrightarrow>
              options r = JObj [] \<and> b2 = Result (r\<lparr>options := default_options\<rparr>))"
proof (cases "map_of kvs ''url''")
  case None
  then have "map_of (kvs @ [(''options'', default_options)]) ''url'' = None"
    by (simp add: map_add_def)
  with None assms(2,3) show ?thesis
    by (auto simp: reject_no_url_key)
next
  case (Some v)
  then have url2: "map_of (kvs @ [(''options'', default_options)]) ''url'' = Some v"
    by (simp add: map_add_def)
  have opt2: "map_of (kvs @ [(''options'', default_options)]) ''options''
                = Some default_options"
    using assms(1) by (simp add: map_add_def)
  from Some have ne: "kvs \<noteq> []" by auto
  show ?thesis
  proof (cases v)
    case (JStr u)
    show ?thesis
      using assms(2,3)
      unfolding extract_links_on_url [OF Some [unfolded JStr]]
        extract_links_on_url [OF url2 [unfolded JStr]] opt2 assms(1)
      by (auto simp: Let_def extract_defaults split: sum.splits if_splits fetched.splits)
  next
    case JNull
    with Some url2 ne assms(2,3) show ?thesis by (auto simp: extract_links_def)
  next
    case (JBool x)
    with Some url2 ne assms(2,3) show ?thesis by (auto simp: extract_links_def)
  next
    case (JNum x)
    with Some url2 ne assms(2,3) show ?thesis by (auto simp: extract_links_def)
  next
    case (JArr x)
    with Some url2 ne assms(2,3) show ?thesis by (auto simp: extract_links_def)
  next
    case (JObj x)
    with Some url2 ne assms(2,3) show ?thesis by (auto simp: extract_links_def)
  qed
qed


theorem omitted_options_same_links_witness:
  "map_of [(''url'', JStr ''https://site.com'')] ''options'' = None
   \<and> fst (extract_links env0 state0 (Inr (JObj [(''url'', JStr ''https://site.com'')])))
       = (Result \<lparr>base_url = ''https://site.com'', all_links = [''https://site.com/a''],
                   new_links = [''https://site.com/a''], timestamp = ''2024-01-01T00:00:00'',
                   total_count = 1, new_count = 1, options = JObj []\<rparr>, 200)
   \<and> fst (extract_links env0 state0
            (Inr (JObj ([(''url'', JStr ''https://site.com'')] @ [(''options'', default_options)]))))
       = (Result \<lparr>base_url = ''https://site.com'', all_links = [''https://site.com/a''],
                   new_links = [''https://site.com/a''], timestamp = ''2024-01-01T00:00:00'',
                   total_count = 1, new_count = 1, options = default_options\<rparr>, 200)"
proof -
  have nokey: "map_of [(''url'', JStr ''https://site.com'')] ''options'' = None"
    by simp
  have r1: "fst (extract_links env0 state0 (Inr (JObj [(''url'', JStr ''https://site.com'')])))
       = (Result \<lparr>base_url = ''https://site.com'', all_links = [''https://site.com/a''],
                   new_links = [''https://site.com/a''], timestamp = ''2024-01-01T00:00:00'',
                   total_count = 1, new_count = 1, options = JObj []\<rparr>, 200)"
    by code_simp
  then have run1: "extract_links env0 state0 (Inr (JObj [(''url'', JStr ''https://site.com'')]))
       = ((Result \<lparr>base_url = ''https://site.com'', all_links = [''https://site.com/a''],
                   new_links = [''https://site.com/a''], timestamp = ''2024-01-01T00:00:00'',
                   total_count = 1, new_count = 1, options = JObj []\<rparr>, 200),
          snd (extract_links env0 state0 (Inr (JObj [(''url'', JStr ''https://site.com'')]))))"
    by (simp add: prod_eq_iff)
  obtain b2 c2 st2 where run2: "extract_links env0 state0
       (Inr (JObj ([(''url'', JStr ''https://site.com'')] @ [(''options'', default_options)])))
       = ((b2, c2), st2)"
    by (metis prod.collapse)
  from omitted_options_same_links [OF nokey run1 run2]
  have "c2 = 200 \<and> b2 = Result \<lparr>base_url = ''https://site.com'',
                   all_links = [''https://site.com/a''],
                   new_links = [''https://site.com/a''], timestamp = ''2024-01-01T00:00:00'',
                   total_count = 1, new_count = 1, options = default_options\<rparr>"
    by simp
  with run2 have r2: "fst (extract_links env0 state0
            (Inr (JObj ([(''url'', JStr ''https://site.com'')] @ [(''options'', default_options)]))))
       = (Result \<lparr>base_url = ''https://site.com'', all_links = [''https://site.com/a''],
                   new_links = [''https://site.com/a''], timestamp = ''2024-01-01T00:00:00'',
                   total_count = 1, new_count = 1, options = default_options\<rparr>, 200)"
    by simp
  from nokey r1 r2 show ?thesis by blast
qed

text \<open>
  Claim C4 as stated fails: the two responses differ in the \<^verbatim>\<open>options\<close> field that the
  handler echoes.
\<close>

theorem omitted_options_response_counterexample:
  "fst (extract_links env0 state0 (Inr (JObj [(''url'', JStr ''https://site.com'')])))
     = (Result \<lparr>base_url = ''https://site.com'', all_links = [''https://site.com/a''],
                 new_links = [''https://site.com/a''], timestamp = ''2024-01-01T00:00:00'',
                 total_count = 1, new_count = 1, options = JObj []\<rparr>, 200)
   \<and> fst (extract_links env0 state0
          (Inr (JObj [(''url'', JStr ''https://site.com''),
                 (''options'', JObj [(''internal_only'', JBool True),
                                     (''remove_query'', JBool True),
                                     (''remove_anchors'', JBool True)])])))
     = (Result \<lparr>base_url = ''https://site.com'', all_links = [''https://site.com/a''],
                 new_links = [''https://site.com/a''], timestamp = ''2024-01-01T00:00:00'',
                 total_count = 1, new_count = 1,
                 options = JObj [(''internal_only'', JBool True),
                                 (''remove_query'', JBool True),
                                 (''remove_anchors'', JBool True)]\<rparr>, 200)
   \<and> fst (extract_links env0 state0 (Inr (JObj [(''url'', JStr ''https://site.com'')])))
     \<noteq> fst (extract_links env0 state0
          (Inr (JObj [(''url'', JStr ''https://site.com''),
                 (''options'', JObj [(''internal_only'', JBool True),
                                     (''remove_query'', JBool True),
                                     (''remove_anchors'', JBool True)])])))"
proof -
  have a: "fst (extract_links env0 state0 (Inr (JObj [(''url'', JStr ''https://site.com'')])))
     = (Result \<lparr>base_url = ''https://site.com'', all_links = [''https://site.com/a''],
                 new_links = [''https://site.com/a''], timestamp = ''2024-01-01T00:00:00'',
                 total_count = 1, new_count = 1, options = JObj []\<rparr>, 200)"
    by code_simp
  have b: "fst (extract_links env0 state0
          (Inr (JObj [(''url'', JStr ''https://site.com''),
                 (''options'', JObj [(''internal_only'', JBool True),
                                     (''remove_query'', JBool True),
                                     (''remove_anchors'', JBool True)])])))
     = (Result \<lparr>base_url = ''https://site.com'', all_links = [''https://site.com/a''],
                 new_links = [''https://site.com/a''], timestamp = ''2024-01-01T00:00:00'',
                 total_count = 1, new_count = 1,
                 options = JObj [(''internal_only'', JBool True),
                                 (''remove_query'', JBool True),
                                 (''remove_anchors'', JBool True)]\<rparr>, 200)"
    by code_simp
  show ?thesis
    unfolding a b by simp
qed

subsection \<open>The difference with the previous record\<close>

lemma result_needs_url:
  assumes "extract_links E st request = ((Result r, code), st')"
  shows "\<exists>kvs u. request = Inr (JObj kvs) \<and> map_of kvs ''url'' = Some (JStr u)"
proof (cases request)
  case (Inl e)
  with assms show ?thesis by (simp add: reject_not_json)
next
  case (Inr data)
  show ?thesis
  proof (cases data)
    case (JObj kvs)
    show ?thesis
    proof (cases "map_of kvs ''url''")
      case None
      with assms Inr JObj show ?thesis by (simp add: reject_no_url_key)
    next
      case (Some v)
      then have "kvs \<noteq> []" by auto
      with assms Inr JObj Some show ?thesis
        by (cases v) (simp_all add: extract_links_def)
    qed
  qed (use assms Inr in \<open>simp_all add: extract_links_def split: if_splits\<close>)
qed

lemma diff_links_none: "diff_links None links = Inr links"
  by (simp add: diff_links_def)

lemma diff_links_wellformed:
  assumes "map_of prev ''all_links'' = Some (JArr (map JStr pl))"
  shows "diff_links (Some (JObj prev)) links = Inr (filter (\<lambda>l. l \<notin> set pl) links)"
proof -
  from assms have "prev \<noteq> []" by auto
  moreover have "list_all hashable (map JStr pl)"
    by (induction pl) simp_all
  moreover have "(\<lambda>l. JStr l \<notin> set (map JStr pl)) = (\<lambda>l. l \<notin> set pl)"
    by auto
  ultimately show ?thesis
    using assms by (simp add: diff_links_def py_set_def)
qed

lemma diff_links_missing:
  assumes "map_of prev ''all_links'' = None"
  shows "diff_links (Some (JObj prev)) links = Inr links"
  using assms by (simp add: diff_links_def py_set_def)

lemma result_fields:
  assumes "map_of kvs ''url'' = Some (JStr u)"
    and "extract_links E st (Inr (JObj kvs)) = ((Result r, code), st')"
  shows "\<exists>html previous_data.
           base_url r = strip_with py_isspace u
         \<and> fetch E (base_url r) = Page html
         \<and> extract_links_from_html E html (base_url r) (options r) = Inr (all_links r)
         \<and> get_previous_data st (base_url r) = Inr previous_data
         \<and> diff_links previous_data (all_links r) = Inr (new_links r)
         \<and> total_count r = length (all_links r) \<and> new_count r = length (new_links r)
         \<and> code = 200"
  using assms(2) unfolding extract_links_on_url [OF assms(1)]
  by (auto simp: Let_def split: sum.splits if_splits fetched.splits)

text \<open>What the lookup returns, in terms of the stored records: a record it returns is
  stored and carries the URL as its \<^verbatim>\<open>base_url\<close>; it returns the first such record.\<close>

lemma find_previous_Some:
  "find_previous url items = Inr (Some item) \<Longrightarrow>
     item \<in> set items \<and> py_get item ''base_url'' JNull = Inr (JStr url)"
proof (induction items)
  case Nil
  then show ?case by simp
next
  case (Cons i items)
  then show ?case
    by (cases "py_get i ''base_url'' JNull") (auto split: if_splits)
qed

lemma find_previous_first:
  assumes "\<forall>i \<in> set before. py_get i ''base_url'' JNull \<noteq> Inr (JStr url)"
    and "py_get item ''base_url'' JNull = Inr (JStr url)"
    and "find_previous url (before @ item # after) = Inr found"
  shows "found = Some item"
  using assms(1,3)
proof (induction before)
  case Nil
  with assms(2) show ?case by simp
next
  case (Cons i before)
  from Cons.prems(1) have other: "py_get i ''base_url'' JNull \<noteq> Inr (JStr url)"
    and rest: "\<forall>i \<in> set before. py_get i ''base_url'' JNull \<noteq> Inr (JStr url)"
    by simp_all
  from Cons.prems(2) other
  have "find_previous url (before @ item # after) = Inr found"
    by (cases "py_get i ''base_url'' JNull") (auto split: if_splits)
  with rest show ?case by (rule Cons.IH)
qed

lemma get_previous_data_stored:
  "load_history st = JArr items \<Longrightarrow> get_previous_data st url = find_previous url items"
  by (simp add: get_previous_data_def)

text \<open>
  Claim C2. For every extraction that returns a record, on a store that holds the sequence
  of records \<open>items\<close>, the most recent first: the links of the record are those freshly
  extracted from the fetched page; when no stored record has the base URL of the request
  as its \<^verbatim>\<open>base_url\<close>, the new links are all the links; when \<open>prev\<close> is the first stored
  record with that \<^verbatim>\<open>base_url\<close> (no record before it has it), the new links are the links,
  in the same order, that are not among the links of \<open>prev\<close>.
\<close>

theorem new_links_are_diff_with_previous:
  assumes "extract_links E st request = ((Result r, code), st')"
    and "load_history st = JArr items"
  shows "(\<exists>html. fetch E (base_url r) = Page html
            \<and> extract_links_from_html E html (base_url r) (options r) = Inr (all_links r))
       \<and> ((\<forall>i \<in> set items. py_get i ''base_url'' JNull \<noteq> Inr (JStr (base_url r)))
            \<longrightarrow> new_links r = all_links r)
       \<and> (\<forall>before prev after pl.
              items = before @ JObj prev # after
              \<and> (\<forall>i \<in> set before. py_get i ''base_url'' JNull \<noteq> Inr (JStr (base_url r)))
              \<and> map_of prev ''base_url'' = Some (JStr (base_url r))
              \<and> map_of prev ''all_links'' = Some (JArr (map JStr pl))
            \<longrightarrow> new_links r = filter (\<lambda>l. l \<notin> set pl) (all_links r))"
proof -
  from result_needs_url [OF assms(1)] obtain kvs u
    where req: "request = Inr (JObj kvs)" and url: "map_of kvs ''url'' = Some (JStr u)"
    by blast
  from result_fields [OF url assms(1) [unfolded req]] obtain html previous_data
    where fetched: "fetch E (base_url r) = Page html"
      and extracted: "extract_links_from_html E html (base_url r) (options r)
                        = Inr (all_links r)"
      and prev: "get_previous_data st (base_url r) = Inr previous_data"
      and diff: "diff_links previous_data (all_links r) = Inr (new_links r)"
    by blast
  from prev have found: "find_previous (base_url r) items = Inr previous_data"
    by (simp only: get_previous_data_stored [OF assms(2)])
  show ?thesis
  proof (intro conjI impI allI)
    from fetched extracted
    show "\<exists>html. fetch E (base_url r) = Page html
            \<and> extract_links_from_html E html (base_url r) (options r) = Inr (all_links r)"
      by blast
  next
    assume none: "\<forall>i \<in> set items. py_get i ''base_url'' JNull \<noteq> Inr (JStr (base_url r))"
    have "previous_data = None"
    proof (cases previous_data)
      case None
      then show ?thesis .
    next
      case (Some item)
      with found have "find_previous (base_url r) items = Inr (Some item)" by simp
      from find_previous_Some [OF this] none show ?thesis by blast
    qed
    with diff show "new_links r = all_links r"
      by (simp add: diff_links_none)
  next
    fix before prev' after pl
    assume h: "items = before @ JObj prev' # after
              \<and> (\<forall>i \<in> set before. py_get i ''base_url'' JNull \<noteq> Inr (JStr (base_url r)))
              \<and> map_of prev' ''base_url'' = Some (JStr (base_url r))
              \<and> map_of prev' ''all_links'' = Some (JArr (map JStr pl))"
    then have earlier: "\<forall>i \<in> set before. py_get i ''base_url'' JNull \<noteq> Inr (JStr (base_url r))"
      and same: "py_get (JObj prev') ''base_url'' JNull = Inr (JStr (base_url r))"
      and wf: "map_of prev' ''all_links'' = Some (JArr (map JStr pl))"
      by simp_all
    from h found have "find_previous (base_url r) (before @ JObj prev' # after)
                         = Inr previous_data"
      by simp
    from find_previous_first [OF earlier same this]
    have "previous_data = Some (JObj prev')" .
    with diff wf show "new_links r = filter (\<lambda>l. l \<notin> set pl) (all_links r)"
      by (simp add: diff_links_wellformed)
  qed
qed

theorem new_links_are_diff_with_previous_witness:
  "fst (extract_links env0
          (state0\<lparr>history_file := Stored (JArr
             [JObj [(''base_url'', JStr ''https://else.org''),
                    (''all_links'', JArr (map JStr [''https://site.com/a'']))],
              JObj [(''base_url'', JStr ''https://site.com''),
                    (''all_links'', JArr (map JStr [''https://other.com/x'']))]])\<rparr>)
          (Inr (JObj [(''url'', JStr '' https://site.com ''),
                      (''options'', JObj [(''internal_only'', JBool False)])])))
     = (Result \<lparr>base_url = ''https://site.com'',
                 all_links = [''https://other.com/x'', ''https://site.com/a''],
                 new_links = [''https://site.com/a''], timestamp = ''2024-01-01T00:00:00'',
                 total_count = 2, new_count = 1,
                 options = JObj [(''internal_only'', JBool False)]\<rparr>, 200)
   \<and> py_get (JObj [(''base_url'', JStr ''https://else.org''),
                     (''all_links'', JArr (map JStr [''https://site.com/a'']))])
         ''base_url'' JNull \<noteq> Inr (JStr ''https://site.com'')
   \<and> map_of [(''base_url'', JStr ''https://site.com''),
               (''all_links'', JArr (map JStr [''https://other.com/x'']))] ''base_url''
       = Some (JStr ''https://site.com'')
   \<and> [''https://site.com/a'']
     = filter (\<lambda>l. l \<notin> set [''https://other.com/x''])
         [''https://other.com/x'', ''https://site.com/a'']"
proof -
  let ?else = "JObj [(''base_url'', JStr ''https://else.org''),
                     (''all_links'', JArr (map JStr [''https://site.com/a'']))]"
  let ?prev = "[(''base_url'', JStr ''https://site.com''),
                (''all_links'', JArr (map JStr [''https://other.com/x'']))]"
  let ?st = "state0\<lparr>history_file := Stored (JArr [?else, JObj ?prev])\<rparr>"
  let ?d = "Inr (JObj [(''url'', JStr '' https://site.com ''),
                       (''options'', JObj [(''internal_only'', JBool False)])])"
  let ?r = "\<lparr>base_url = ''https://site.com'',
                 all_links = [''https://other.com/x'', ''https://site.com/a''],
                 new_links = [''https://site.com/a''], timestamp = ''2024-01-01T00:00:00'',
                 total_count = 2, new_count = 1,
                 options = JObj [(''internal_only'', JBool False)]\<rparr>"
  have r: "fst (extract_links env0 ?st ?d) = (Result ?r, 200)"
    by code_simp
  then have run: "extract_links env0 ?st ?d = ((Result ?r, 200), snd (extract_links env0 ?st ?d))"
    by (simp add: prod_eq_iff)
  have stored: "load_history ?st = JArr [?else, JObj ?prev]"
    by (rule load_history_Stored)
  have shape: "[?else, JObj ?prev] = [?else] @ JObj ?prev # []"
    by simp
  have earlier: "\<forall>i \<in> set [?else]. py_get i ''base_url'' JNull \<noteq> Inr (JStr (base_url ?r))"
    by simp
  have other: "py_get ?else ''base_url'' JNull \<noteq> Inr (JStr ''https://site.com'')"
    by simp
  have same: "map_of ?prev ''base_url'' = Some (JStr (base_url ?r))"
    by simp
  have same': "map_of ?prev ''base_url'' = Some (JStr ''https://site.com'')"
    by simp
  have wf: "map_of ?prev ''all_links'' = Some (JArr (map JStr [''https://other.com/x'']))"
    by simp
  note claim = new_links_are_diff_with_previous [OF run stored]
  from claim [THEN conjunct2, THEN conjunct2, rule_format,
              of "[?else]" ?prev "[]" "[''https://other.com/x'']"]
       shape earlier same wf
  have "new_links ?r = filter (\<lambda>l. l \<notin> set [''https://other.com/x'']) (all_links ?r)"
    by blast
  then have "[''https://site.com/a'']
     = filter (\<lambda>l. l \<notin> set [''https://other.com/x''])
         [''https://other.com/x'', ''https://site.com/a'']"
    by simp
  with r other same' show ?thesis by blast
qed

text \<open>
  Claim C10. The difference is total on a malformed history: when the most recent record
  found for the base URL has no \<^verbatim>\<open>all_links\<close> field, it counts as a record with no link;
  the extraction succeeds with status 200 and every extracted link is a new link.
\<close>

theorem missing_all_links_counts_all_new:
  assumes "map_of kvs ''url'' = Some (JStr u)"
    and "urlparse E (strip_with py_isspace u) [] = Inr p"
    and "scheme p \<noteq> []" and "netloc p \<noteq> []"
    and "fetch E (strip_with py_isspace u) = Page html"
    and "extract_links_from_html E html (strip_with py_isspace u)
           (case map_of kvs ''options'' of None \<Rightarrow> JObj [] | Some v \<Rightarrow> v) = Inr links"
    and "get_previous_data st (strip_with py_isspace u) = Inr (Some (JObj prev))"
    and "map_of prev ''all_links'' = None"
  shows "\<exists>r st'. extract_links E st (Inr (JObj kvs)) = ((Result r, 200), st')
           \<and> all_links r = links \<and> new_links r = links \<and> new_count r = length links"
  unfolding extract_links_on_url [OF assms(1)]
  using assms(2-7) diff_links_missing [OF assms(8), of links]
  by (simp add: Let_def)


theorem missing_all_links_counts_all_new_witness:
  "get_previous_data
     (state0\<lparr>history_file := Stored (JArr
         [JObj [(''base_url'', JStr ''https://site.com'')]])\<rparr>) ''https://site.com''
     = Inr (Some (JObj [(''base_url'', JStr ''https://site.com'')]))
   \<and> map_of [(''base_url'', JStr ''https://site.com'')] ''all_links'' = None
   \<and> (\<exists>r st'. extract_links env0
         (state0\<lparr>history_file := Stored (JArr
             [JObj [(''base_url'', JStr ''https://site.com'')]])\<rparr>)
         (Inr (JObj [(''url'', JStr ''https://site.com'')])) = ((Result r, 200), st')
        \<and> all_links r = [''https://site.com/a''] \<and> new_links r = [''https://site.com/a'']
        \<and> new_count r = length [''https://site.com/a''])"
proof -
  let ?st = "state0\<lparr>history_file := Stored (JArr
         [JObj [(''base_url'', JStr ''https://site.com'')]])\<rparr>"
  have url: "map_of [(''url'', JStr ''https://site.com'')] ''url''
               = Some (JStr ''https://site.com'')"
    by simp
  have parsed: "urlparse env0 (strip_with py_isspace ''https://site.com'') []
      = Inr \<lparr>scheme = ''https'', netloc = ''site.com'', path = [], params = [],
             query = [], fragment = []\<rparr>"
    by code_simp
  have s: "scheme \<lparr>scheme = ''https'', netloc = ''site.com'', path = [], params = [],
             query = [], fragment = []\<rparr> \<noteq> []"
    by simp
  have n: "netloc \<lparr>scheme = ''https'', netloc = ''site.com'', path = [], params = [],
             query = [], fragment = []\<rparr> \<noteq> []"
    by simp
  have fetched: "fetch env0 (strip_with py_isspace ''https://site.com'') = Page ''<html>''"
    by code_simp
  have extracted: "extract_links_from_html env0 ''<html>''
      (strip_with py_isspace ''https://site.com'')
      (case map_of [(''url'', JStr ''https://site.com'')] ''options'' of
         None \<Rightarrow> JObj [] | Some v \<Rightarrow> v) = Inr [''https://site.com/a'']"
    by code_simp
  have prev: "get_previous_data ?st (strip_with py_isspace ''https://site.com'')
     = Inr (Some (JObj [(''base_url'', JStr ''https://site.com'')]))"
    by code_simp
  have prev': "get_previous_data ?st ''https://site.com''
     = Inr (Some (JObj [(''base_url'', JStr ''https://site.com'')]))"
    by code_simp
  have missing: "map_of [(''base_url'', JStr ''https://site.com'')] ''all_links'' = None"
    by simp
  from missing_all_links_counts_all_new [OF url parsed s n fetched extracted prev missing]
    prev' missing
  show ?thesis by blast
qed

end
